theory Spec2Isabelle
  imports Main "HOL-Library.Sublist"
begin

section \<open>Strings\<close>

text \<open>
  Python strings are modelled as \<open>string\<close>. The model covers ASCII text: the classes
  \<open>\d\<close>, \<open>\w\<close> and the whitespace removed by \<open>str.strip\<close> are the ASCII ones.
\<close>

definition is_digit :: "char \<Rightarrow> bool" where
  "is_digit c = (c \<in> set ''0123456789'')"

definition is_word :: "char \<Rightarrow> bool" where
  "is_word c =
     (c \<in> set ''0123456789abcdefghijklmnopqrstuvwxyzABCDEFGHIJKLMNOPQRSTUVWXYZ_'')"

definition is_space :: "char \<Rightarrow> bool" where
  "is_space c = (c \<in> {CHR 0x09, CHR 0x0A, CHR 0x0B, CHR 0x0C, CHR 0x0D,
                       CHR 0x1C, CHR 0x1D, CHR 0x1E, CHR 0x1F, CHR 0x20})"

definition strip :: "string \<Rightarrow> string" where
  "strip s = rev (dropWhile is_space (rev (dropWhile is_space s)))"

definition startswith :: "string \<Rightarrow> string \<Rightarrow> bool" where
  "startswith s p = (take (length p) s = p)"

text \<open>\<open>sub in s\<close> for strings.\<close>

fun str_contains :: "string \<Rightarrow> string \<Rightarrow> bool" where
  "str_contains sub [] = (sub = [])"
| "str_contains sub (c # cs) = (startswith (c # cs) sub \<or> str_contains sub cs)"

section \<open>Decoded metadata payloads\<close>

text \<open>
  What \<open>json.loads\<close> returns. Numbers are the integers; a dict is the association list
  of its items, read by its first binding of a key.
\<close>

datatype json =
    JNull
  | JBool bool
  | JNum int
  | JStr string
  | JList "json list"
  | JDict "(string \<times> json) list"

text \<open>Python truth value of a decoded payload (\<open>not x\<close> is its negation).\<close>

fun truthy :: "json \<Rightarrow> bool" where
  "truthy JNull = False"
| "truthy (JBool b) = b"
| "truthy (JNum n) = (n \<noteq> 0)"
| "truthy (JStr s) = (s \<noteq> [])"
| "truthy (JList xs) = (xs \<noteq> [])"
| "truthy (JDict kvs) = (kvs \<noteq> [])"

text \<open>\<open>d.get(k)\<close> and \<open>d.get(k, default)\<close> on the items of a dict.\<close>

definition dict_get :: "(string \<times> json) list \<Rightarrow> string \<Rightarrow> json" where
  "dict_get kvs k = (case map_of kvs k of None \<Rightarrow> JNull | Some v \<Rightarrow> v)"

definition dict_get_default :: "(string \<times> json) list \<Rightarrow> string \<Rightarrow> json \<Rightarrow> json" where
  "dict_get_default kvs k d = (case map_of kvs k of None \<Rightarrow> d | Some v \<Rightarrow> v)"

section \<open>The rendered document\<close>

text \<open>
  A document node is a tag with its name, its \<open>href\<close> attribute (when it has one) and
  its contents, or a string that \<open>get_text\<close> reads.
\<close>

datatype node =
    Tag string "string option" "node list"
  | Str string

fun descendants :: "node \<Rightarrow> node list" where
  "descendants (Tag n h cs) = concat (map (\<lambda>c. c # descendants c) cs)"
| "descendants (Str s) = []"

text \<open>The tags selected by \<open>("a", href=True)\<close>, with the value of the attribute.\<close>

fun a_href :: "node \<Rightarrow> string option" where
  "a_href (Tag n h cs) = (if n = ''a'' then h else None)"
| "a_href (Str s) = None"

text \<open>\<open>node.find_all("a", href=True)\<close>, as the list of the \<open>href\<close> values in document order.\<close>

definition find_all_a_href :: "node \<Rightarrow> string list" where
  "find_all_a_href nd = List.map_filter a_href (descendants nd)"

fun strings_of :: "node \<Rightarrow> string list" where
  "strings_of (Tag n h cs) = concat (map strings_of cs)"
| "strings_of (Str s) = [s]"

text \<open>\<open>sep.join(parts)\<close>.\<close>

fun join :: "string \<Rightarrow> string list \<Rightarrow> string" where
  "join sep [] = []"
| "join sep [x] = x"
| "join sep (x # y # ys) = x @ sep @ join sep (y # ys)"

text \<open>\<open>container.get_text()\<close> and \<open>container.get_text(" ", strip=True)\<close>.\<close>

definition get_text :: "node \<Rightarrow> string" where
  "get_text nd = concat (strings_of nd)"

definition get_text_stripped :: "node \<Rightarrow> string" where
  "get_text_stripped nd = join '' '' (filter (\<lambda>s. s \<noteq> []) (map strip (strings_of nd)))"

text \<open>
  A metadata block is read only through its ancestors: it is given by the chain
  \<open>script_tag.parent\<close>, \<open>script_tag.parent.parent\<close>, ... up to the document object, whose
  own parent is \<open>None\<close>.
\<close>

type_synonym script_tag = "node list"

section \<open>URL shapes\<close>

text \<open>The tail \<open>.+-\d+\<close> of both patterns: \<open>.\<close> is any character but a newline.\<close>

fun dash_digit :: "string \<Rightarrow> bool" where
  "dash_digit [] = False"
| "dash_digit (c # cs) =
     ((c = CHR ''-'' \<and> (case cs of [] \<Rightarrow> False | d # _ \<Rightarrow> is_digit d))
      \<or> (c \<noteq> CHR 0x0A \<and> dash_digit cs))"

fun slug_id :: "string \<Rightarrow> bool" where
  "slug_id [] = False"
| "slug_id (c # cs) = (c \<noteq> CHR 0x0A \<and> dash_digit cs)"

text \<open>A pattern that is one of some literal prefixes followed by \<open>.+-\d+\<close>, matched at
  the start of a string and searched for at every position.\<close>

definition match_here :: "string list \<Rightarrow> string \<Rightarrow> bool" where
  "match_here ps s = list_ex (\<lambda>p. startswith s p \<and> slug_id (drop (length p) s)) ps"

fun re_search :: "string list \<Rightarrow> string \<Rightarrow> bool" where
  "re_search ps [] = match_here ps []"
| "re_search ps (c # cs) = (match_here ps (c # cs) \<or> re_search ps cs)"

text \<open>\<open>/(?:eng|lit)/tickets/.+-\d+\<close>\<close>

definition event_page_prefixes :: "string list" where
  "event_page_prefixes = [''/eng/tickets/'', ''/lit/tickets/'']"

definition event_page_re :: "string \<Rightarrow> bool" where
  "event_page_re href = re_search event_page_prefixes href"

text \<open>\<open>https?://(?:www\.)?bilietai\.lt/(?:eng|lit)/tickets/.+-\d+\<close>\<close>

definition abs_event_page_prefixes :: "string list" where
  "abs_event_page_prefixes =
     [scheme @ ''://'' @ www @ ''bilietai.lt'' @ path.
        scheme \<leftarrow> [''https'', ''http''], www \<leftarrow> [''www.'', ''''], path \<leftarrow> event_page_prefixes]"

definition abs_event_page_re :: "string \<Rightarrow> bool" where
  "abs_event_page_re href = re_search abs_event_page_prefixes href"

section \<open>The container and link resolver\<close>

text \<open>
  \<open>abs_url\<close> is \<open>urljoin(site_root, href)\<close> of the standard library, taken as a parameter.

  The test on an \<open>href\<close> that the source writes out twice, with the link it gives:
  a site-relative detail path is made absolute, an absolute detail URL loses its fragment
  (\<open>href.split("#")[0]\<close>).
\<close>

definition detail_link :: "(string \<Rightarrow> string) \<Rightarrow> string \<Rightarrow> string option" where
  "detail_link abs_url href =
     (if startswith href ''/'' \<and> event_page_re href then Some (abs_url href)
      else if abs_event_page_re href then Some (takeWhile (\<lambda>c. c \<noteq> CHR ''#'') href)
      else None)"

text \<open>\<open>script_tag.find_parent("a", href=True)\<close>\<close>

fun find_parent_a :: "script_tag \<Rightarrow> node option" where
  "find_parent_a [] = None"
| "find_parent_a (p # ps) = (if a_href p \<noteq> None then Some p else find_parent_a ps)"

text \<open>\<open>list(dict.fromkeys(links))\<close>: the first occurrences, in order.\<close>

fun dict_fromkeys :: "string list \<Rightarrow> string list" where
  "dict_fromkeys [] = []"
| "dict_fromkeys (x # xs) = x # filter (\<lambda>y. y \<noteq> x) (dict_fromkeys xs)"

definition links_under :: "(string \<Rightarrow> string) \<Rightarrow> node \<Rightarrow> string list" where
  "links_under abs_url nd = List.map_filter (detail_link abs_url) (find_all_a_href nd)"

definition uniq_links :: "(string \<Rightarrow> string) \<Rightarrow> node \<Rightarrow> string list" where
  "uniq_links abs_url nd = dict_fromkeys (links_under abs_url nd)"

text \<open>The loop \<open>for _ in range(10)\<close>: the first argument counts the rounds left, the
  last is the chain of parents above the cursor.\<close>

fun ascend :: "(string \<Rightarrow> string) \<Rightarrow> nat \<Rightarrow> node list \<Rightarrow> node option \<times> string" where
  "ascend abs_url 0 ps = (None, [])"
| "ascend abs_url (Suc n) [] = (None, [])"
| "ascend abs_url (Suc n) (p # ps) =
     (case uniq_links abs_url p of
        [l] \<Rightarrow> (Some p, l)
      | _ \<Rightarrow> ascend abs_url n ps)"

definition find_container_and_event_link ::
  "(string \<Rightarrow> string) \<Rightarrow> script_tag \<Rightarrow> node option \<times> string" where
  "find_container_and_event_link abs_url tag =
     (case find_parent_a tag of
        None \<Rightarrow> ascend abs_url 10 tag
      | Some a \<Rightarrow>
          (case detail_link abs_url (the (a_href a)) of
             Some l \<Rightarrow> (Some a, l)
           | None \<Rightarrow> ascend abs_url 10 tag))"

section \<open>The record builder\<close>

text \<open>\<open>\b(\d{1,2}:\d{2})\b\<close>. The part \<open>:\d{2}\b\<close> at the start of a string:\<close>

fun time_tail :: "string \<Rightarrow> bool" where
  "time_tail (c # d3 # d4 # rest) =
     (c = CHR '':'' \<and> is_digit d3 \<and> is_digit d4
      \<and> (case rest of [] \<Rightarrow> True | x # _ \<Rightarrow> \<not> is_word x))"
| "time_tail _ = False"

text \<open>
  The pattern matched at one position, \<open>prev\<close> being the character before it. The match
  starts with a digit, so the leading \<open>\b\<close> asks that \<open>prev\<close> is no word character;
  \<open>\d{1,2}\<close> tries two digits before one.
\<close>

definition time_here :: "char option \<Rightarrow> string \<Rightarrow> string option" where
  "time_here prev s =
     (if (case prev of None \<Rightarrow> False | Some c \<Rightarrow> is_word c) then None
      else case s of
        [] \<Rightarrow> None
      | d1 # s1 \<Rightarrow>
          if is_digit d1 \<and> (case s1 of [] \<Rightarrow> False | d2 # s2 \<Rightarrow> is_digit d2 \<and> time_tail s2)
          then Some (take 5 s)
          else if is_digit d1 \<and> time_tail s1 then Some (take 4 s)
          else None)"

fun time_search :: "char option \<Rightarrow> string \<Rightarrow> string option" where
  "time_search prev [] = None"
| "time_search prev (c # cs) =
     (case time_here prev (c # cs) of
        Some t \<Rightarrow> Some t
      | None \<Rightarrow> time_search (Some c) cs)"

definition first_time_from_text :: "string \<Rightarrow> string" where
  "first_time_from_text text = (case time_search None text of Some t \<Rightarrow> t | None \<Rightarrow> [])"

datatype py_error = TypeError | AttributeError

text \<open>
  \<open>split_dt\<close> receives whatever the payload holds under \<open>startDate\<close>. A value that is not
  a string and not false raises: \<open>"T" in s\<close> is a TypeError on a number or on \<open>True\<close>; a
  list or a dict passes that test one way or the other and has no \<open>split\<close> and no \<open>strip\<close>.
\<close>

fun split_dt :: "json \<Rightarrow> py_error + string \<times> string" where
  "split_dt (JStr s) =
     (if s = [] then Inr ([], [])
      else if CHR ''T'' \<in> set s then
        (let d = takeWhile (\<lambda>c. c \<noteq> CHR ''T'') s;
             t = tl (dropWhile (\<lambda>c. c \<noteq> CHR ''T'') s)
         in Inr (strip d, take 5 (strip t)))
      else Inr (strip s, []))"
| "split_dt JNull = Inr ([], [])"
| "split_dt (JBool b) = (if b then Inl TypeError else Inr ([], []))"
| "split_dt (JNum n) = (if n = 0 then Inr ([], []) else Inl TypeError)"
| "split_dt (JList xs) = (if xs = [] then Inr ([], []) else Inl AttributeError)"
| "split_dt (JDict kvs) = (if kvs = [] then Inr ([], []) else Inl AttributeError)"

record event_row =
  title :: json
  location :: json
  city :: json
  start_date :: string
  start_time :: string
  event_link :: string
  ticket_link :: json
  scraped_at :: string

text \<open>\<open>d.get(k, {}) if isinstance(d.get(k), dict) else {}\<close>\<close>

definition nested_dict :: "(string \<times> json) list \<Rightarrow> string \<Rightarrow> (string \<times> json) list" where
  "nested_dict kvs k = (case dict_get kvs k of JDict d \<Rightarrow> d | _ \<Rightarrow> [])"

text \<open>\<open>now\<close> is the text made from \<open>datetime.utcnow()\<close> at the call.\<close>

definition row_from_event ::
  "(string \<Rightarrow> string) \<Rightarrow> string \<Rightarrow> (string \<times> json) list \<Rightarrow> node option \<Rightarrow> string
     \<Rightarrow> py_error + event_row" where
  "row_from_event abs_url now e container event_page_link =
     (case split_dt (dict_get_default e ''startDate'' (JStr [])) of
        Inl err \<Rightarrow> Inl err
      | Inr (sd, st0) \<Rightarrow>
          (let container_text = (case container of None \<Rightarrow> [] | Some c \<Rightarrow> get_text_stripped c);
               st = (if st0 = [] then first_time_from_text container_text else st0);
               loc = nested_dict e ''location'';
               addr = nested_dict loc ''address'';
               offers = nested_dict e ''offers'';
               tl0 = dict_get_default offers ''url'' (JStr []);
               tl1 = (case tl0 of
                        JStr s \<Rightarrow> if startswith s ''/'' then JStr (abs_url s) else tl0
                      | _ \<Rightarrow> tl0)
           in Inr \<lparr>title = dict_get_default e ''name'' (JStr []),
                   location = dict_get_default loc ''name'' (JStr []),
                   city = dict_get_default addr ''addressLocality'' (JStr []),
                   start_date = sd,
                   start_time = st,
                   event_link = event_page_link,
                   ticket_link = tl1,
                   scraped_at = now\<rparr>))"

section \<open>The metadata blocks of a page\<close>

text \<open>
  A rendered page is the list of its \<open>application/ld+json\<close> script tags, each with what
  \<open>json.loads\<close> made of its text: \<open>None\<close> when the text is empty or does not parse.
\<close>

type_synonym soup = "(script_tag \<times> json option) list"

type_synonym block = "script_tag \<times> (string \<times> json) list"

definition event_objs :: "json \<Rightarrow> (string \<times> json) list list" where
  "event_objs data =
     List.map_filter
       (\<lambda>obj. case obj of
                 JDict kvs \<Rightarrow> if dict_get kvs ''@type'' = JStr ''Event'' then Some kvs else None
               | _ \<Rightarrow> None)
       (case data of JList objs \<Rightarrow> objs | _ \<Rightarrow> [data])"

definition iter_event_jsonld :: "soup \<Rightarrow> block list" where
  "iter_event_jsonld sp =
     concat (map (\<lambda>(s, raw). case raw of None \<Rightarrow> [] | Some data \<Rightarrow> map (Pair s) (event_objs data)) sp)"

section \<open>The crawl\<close>

text \<open>
  The four accumulators of \<open>scrape_bilietai_lt\<close>, and the number of readings of the
  clock taken so far: \<open>clock n\<close> is the text of the \<open>n\<close>-th reading.
\<close>

record crawl_state =
  rows :: "event_row list"
  series_links :: "string set"
  series_fallback :: "string \<rightharpoonup> event_row"
  seen_event_pages :: "string set"
  ticks :: nat

definition init_state :: crawl_state where
  "init_state = \<lparr>rows = [], series_links = {}, series_fallback = Map.empty,
                  seen_event_pages = {}, ticks = 0\<rparr>"

text \<open>\<open>container.get_text() if container else ""\<close>\<close>

definition raw_text :: "node option \<Rightarrow> string" where
  "raw_text container = (case container of None \<Rightarrow> [] | Some c \<Rightarrow> get_text c)"

definition is_series :: "event_row \<Rightarrow> node option \<Rightarrow> bool" where
  "is_series r container =
     (\<not> truthy (location r) \<or> str_contains ''Different venues'' (raw_text container))"

text \<open>The body of the loop over the blocks of a listing page. An exception of the
  builder leaves the function: it is the result \<open>Inl\<close>.\<close>

definition listing_block ::
  "(string \<Rightarrow> string) \<Rightarrow> (nat \<Rightarrow> string) \<Rightarrow> crawl_state \<Rightarrow> block \<Rightarrow> py_error + crawl_state" where
  "listing_block abs_url clock st blk =
     (case blk of (script_tag, e) \<Rightarrow>
        (case find_container_and_event_link abs_url script_tag of (container, event_page_link) \<Rightarrow>
           if event_page_link = [] \<or> event_page_link \<in> seen_event_pages st then Inr st
           else
             (case row_from_event abs_url (clock (ticks st)) e container event_page_link of
                Inl err \<Rightarrow> Inl err
              | Inr r \<Rightarrow>
                  (let st1 = st\<lparr>seen_event_pages := insert event_page_link (seen_event_pages st),
                                 ticks := Suc (ticks st)\<rparr>
                   in if is_series r container
                      then Inr (st1\<lparr>series_links := insert event_page_link (series_links st1),
                                     series_fallback := (series_fallback st1)(event_page_link \<mapsto> r)\<rparr>)
                      else Inr (st1\<lparr>rows := rows st1 @ [r]\<rparr>)))))"

fun listing_blocks ::
  "(string \<Rightarrow> string) \<Rightarrow> (nat \<Rightarrow> string) \<Rightarrow> crawl_state \<Rightarrow> block list \<Rightarrow> py_error + crawl_state" where
  "listing_blocks abs_url clock st [] = Inr st"
| "listing_blocks abs_url clock st (b # bs) =
     (case listing_block abs_url clock st b of
        Inl err \<Rightarrow> Inl err
      | Inr st' \<Rightarrow> listing_blocks abs_url clock st' bs)"

text \<open>\<open>str(n)\<close> for a page number, and \<open>base_url.format(page_num)\<close>.\<close>

fun str_nat :: "nat \<Rightarrow> string" where
  "str_nat n =
     (if n < 10 then [char_of (48 + n)]
      else str_nat (n div 10) @ [char_of (48 + n mod 10)])"

declare str_nat.simps [simp del]

definition base_url :: "nat \<Rightarrow> string" where
  "base_url page_num =
     ''https://www.bilietai.lt/eng/tickets/visi/category:1002,1005,1006/status:insales,sold_out/order:date,asc/page:''
     @ str_nat page_num
     @ ''/venue:294187,45371,103680,208473,39028,39404,41503,39103,84421,40473,39368,39220,317656,40052,47301,45058,90741,190114,39105,45041/''"

text \<open>
  \<open>render url\<close> is the page that \<open>page.goto(url)\<close> and \<open>page.content()\<close> give, parsed, or
  \<open>None\<close> when \<open>page.goto\<close> raises. The loop over the listing pages:
\<close>

fun listing_pages ::
  "(string \<Rightarrow> string) \<Rightarrow> (nat \<Rightarrow> string) \<Rightarrow> (string \<Rightarrow> soup option) \<Rightarrow> crawl_state \<Rightarrow> nat list
     \<Rightarrow> py_error + crawl_state" where
  "listing_pages abs_url clock render st [] = Inr st"
| "listing_pages abs_url clock render st (page_num # ns) =
     (case render (base_url page_num) of
        None \<Rightarrow> listing_pages abs_url clock render st ns
      | Some sp \<Rightarrow>
          (case listing_blocks abs_url clock st (iter_event_jsonld sp) of
             Inl err \<Rightarrow> Inl err
           | Inr st' \<Rightarrow> listing_pages abs_url clock render st' ns))"

text \<open>\<open>not isinstance(d, dict) or not d.get(k)\<close>, negated.\<close>

definition has_field :: "json \<Rightarrow> string \<Rightarrow> bool" where
  "has_field d k = (case d of JDict kvs \<Rightarrow> truthy (dict_get kvs k) | _ \<Rightarrow> False)"

text \<open>The body of the loop over the blocks of a series page; the flag is \<open>found\<close>.\<close>

definition expand_block ::
  "(string \<Rightarrow> string) \<Rightarrow> (nat \<Rightarrow> string) \<Rightarrow> string \<Rightarrow> crawl_state \<times> bool \<Rightarrow> block
     \<Rightarrow> py_error + crawl_state \<times> bool" where
  "expand_block abs_url clock series_url acc blk =
     (case acc of (st, found) \<Rightarrow>
      case blk of (script_tag, e) \<Rightarrow>
        if \<not> has_field (dict_get_default e ''location'' (JDict [])) ''name'' then Inr (st, found)
        else if \<not> has_field (dict_get_default e ''offers'' (JDict [])) ''url'' then Inr (st, found)
        else
          (case find_container_and_event_link abs_url script_tag of (container, link) \<Rightarrow>
             if link = [] \<or> link = series_url then Inr (st, found)
             else
               (case row_from_event abs_url (clock (ticks st)) e container link of
                  Inl err \<Rightarrow> Inl err
                | Inr r \<Rightarrow> Inr (st\<lparr>rows := rows st @ [r], ticks := Suc (ticks st)\<rparr>, True))))"

fun expand_blocks ::
  "(string \<Rightarrow> string) \<Rightarrow> (nat \<Rightarrow> string) \<Rightarrow> string \<Rightarrow> crawl_state \<times> bool \<Rightarrow> block list
     \<Rightarrow> py_error + crawl_state \<times> bool" where
  "expand_blocks abs_url clock series_url acc [] = Inr acc"
| "expand_blocks abs_url clock series_url acc (b # bs) =
     (case expand_block abs_url clock series_url acc b of
        Inl err \<Rightarrow> Inl err
      | Inr acc' \<Rightarrow> expand_blocks abs_url clock series_url acc' bs)"

text \<open>\<open>if series_url in series_fallback: rows.append(series_fallback[series_url])\<close>\<close>

definition emit_fallback :: "crawl_state \<Rightarrow> string \<Rightarrow> crawl_state" where
  "emit_fallback st series_url =
     (case series_fallback st series_url of
        None \<Rightarrow> st
      | Some r \<Rightarrow> st\<lparr>rows := rows st @ [r]\<rparr>)"

text \<open>The body of the loop over the series links.\<close>

definition expand_series ::
  "(string \<Rightarrow> string) \<Rightarrow> (nat \<Rightarrow> string) \<Rightarrow> (string \<Rightarrow> soup option) \<Rightarrow> crawl_state \<Rightarrow> string
     \<Rightarrow> py_error + crawl_state" where
  "expand_series abs_url clock render st series_url =
     (case render series_url of
        None \<Rightarrow> Inr (emit_fallback st series_url)
      | Some sp \<Rightarrow>
          (case expand_blocks abs_url clock series_url (st, False) (iter_event_jsonld sp) of
             Inl err \<Rightarrow> Inl err
           | Inr (st', found) \<Rightarrow>
               if \<not> found then Inr (emit_fallback st' series_url) else Inr st'))"

fun series_phase ::
  "(string \<Rightarrow> string) \<Rightarrow> (nat \<Rightarrow> string) \<Rightarrow> (string \<Rightarrow> soup option) \<Rightarrow> crawl_state \<Rightarrow> string list
     \<Rightarrow> py_error + crawl_state" where
  "series_phase abs_url clock render st [] = Inr st"
| "series_phase abs_url clock render st (u # us) =
     (case expand_series abs_url clock render st u of
        Inl err \<Rightarrow> Inl err
      | Inr st' \<Rightarrow> series_phase abs_url clock render st' us)"

section \<open>The final table\<close>

definition dedup_key :: "event_row \<Rightarrow> json \<times> string \<times> string \<times> json" where
  "dedup_key r = (title r, start_date r, start_time r, location r)"

text \<open>\<open>drop_duplicates(subset=[...])\<close> with its default \<open>keep="first"\<close>: the first
  argument is the keys met so far. Two keys are the same when their four fields are
  equal values.\<close>

fun drop_dups :: "(json \<times> string \<times> string \<times> json) list \<Rightarrow> event_row list \<Rightarrow> event_row list" where
  "drop_dups seen [] = []"
| "drop_dups seen (r # rs) =
     (if dedup_key r \<in> set seen then drop_dups seen rs
      else r # drop_dups (dedup_key r # seen) rs)"

definition drop_duplicates :: "event_row list \<Rightarrow> event_row list" where
  "drop_duplicates rs = drop_dups [] rs"

text \<open>
  The whole run. \<open>set_order\<close> is the order in which the loop \<open>for series_url in
  series_links\<close> meets the members of the set: Python fixes no order, so it is a
  parameter, meant to list each member of its argument once. The page numbers are
  \<open>range(1, pages_to_check + 1)\<close>. Opening and closing the browser are left out: a
  failure there ends the run before any page is read.
\<close>

definition crawl ::
  "(string \<Rightarrow> string) \<Rightarrow> (nat \<Rightarrow> string) \<Rightarrow> (string \<Rightarrow> soup option) \<Rightarrow> (string set \<Rightarrow> string list)
     \<Rightarrow> int \<Rightarrow> py_error + crawl_state" where
  "crawl abs_url clock render set_order pages_to_check =
     (case listing_pages abs_url clock render init_state (map nat [1..pages_to_check]) of
        Inl err \<Rightarrow> Inl err
      | Inr st \<Rightarrow> series_phase abs_url clock render st (set_order (series_links st)))"

definition scrape_bilietai_lt ::
  "(string \<Rightarrow> string) \<Rightarrow> (nat \<Rightarrow> string) \<Rightarrow> (string \<Rightarrow> soup option) \<Rightarrow> (string set \<Rightarrow> string list)
     \<Rightarrow> int \<Rightarrow> py_error + event_row list" where
  "scrape_bilietai_lt abs_url clock render set_order pages_to_check =
     (case crawl abs_url clock render set_order pages_to_check of
        Inl err \<Rightarrow> Inl err
      | Inr st \<Rightarrow> Inr (drop_duplicates (rows st)))"

section \<open>Example inputs\<close>

text \<open>The site root joined with a site-relative path that has no dot segments.\<close>

definition site :: "string \<Rightarrow> string" where
  "site h = ''https://www.bilietai.lt'' @ h"

text \<open>A listing card: the metadata block in a \<open>div\<close>, beside the one link of the card.\<close>

definition card :: node where
  "card = Tag ''li'' None
            [Tag ''div'' None [Tag ''script'' None []],
             Tag ''a'' (Some ''/eng/tickets/concert-123'') [Str ''Concert'']]"

definition card_tag :: script_tag where
  "card_tag = [Tag ''div'' None [Tag ''script'' None []], card]"

text \<open>Two event objects, one with a time of day in \<open>startDate\<close> and one without, and a
  container whose text carries two times.\<close>

definition timed_event :: "(string \<times> json) list" where
  "timed_event =
     [(''@type'', JStr ''Event''), (''name'', JStr ''Concert''),
      (''startDate'', JStr ''2025-05-01T19:00''),
      (''location'', JDict [(''name'', JStr ''Arena'')]),
      (''offers'', JDict [(''url'', JStr ''/buy/1'')])]"



text \<open>
  A run over one listing page. The page shows a concert with its venue and two cards
  without a venue, a tour and a festival. The page of the tour shows the concert again,
  in a card whose one link is the link of the festival; the page of the festival does
  not load.
\<close>

definition tour_card :: node where
  "tour_card = Tag ''li'' None
                 [Tag ''div'' None [Tag ''script'' None []],
                  Tag ''a'' (Some ''/eng/tickets/tour-7'') [Str ''Tour'']]"

definition tour_tag :: script_tag where
  "tour_tag = [Tag ''div'' None [Tag ''script'' None []], tour_card]"

definition fest_card :: node where
  "fest_card = Tag ''li'' None
                 [Tag ''div'' None [Tag ''script'' None []],
                  Tag ''a'' (Some ''/eng/tickets/fest-9'') [Str ''Fest'']]"

definition fest_tag :: script_tag where
  "fest_tag = [Tag ''div'' None [Tag ''script'' None []], fest_card]"

definition tour_event :: "(string \<times> json) list" where
  "tour_event = [(''@type'', JStr ''Event''), (''name'', JStr ''Tour''),
                 (''startDate'', JStr ''2025-06-01'')]"

definition fest_event :: "(string \<times> json) list" where
  "fest_event = [(''@type'', JStr ''Event''), (''name'', JStr ''Fest''),
                 (''startDate'', JStr ''2025-07-01'')]"

definition concert_link :: string where
  "concert_link = ''https://www.bilietai.lt/eng/tickets/concert-123''"

definition tour_link :: string where
  "tour_link = ''https://www.bilietai.lt/eng/tickets/tour-7''"

definition fest_link :: string where
  "fest_link = ''https://www.bilietai.lt/eng/tickets/fest-9''"

definition listing_soup :: soup where
  "listing_soup =
     [(card_tag, Some (JDict timed_event)),
      (tour_tag, Some (JList [JDict tour_event])),
      (fest_tag, Some (JDict fest_event))]"

definition tour_soup :: soup where
  "tour_soup = [(fest_tag, Some (JDict timed_event))]"

definition ex_render :: "string \<Rightarrow> soup option" where
  "ex_render url =
     (if url = base_url 1 then Some listing_soup
      else if url = tour_link then Some tour_soup
      else None)"

definition ex_clock :: "nat \<Rightarrow> string" where
  "ex_clock n = ''2026-01-01T00:00:00Z''"

definition ex_order :: "string set \<Rightarrow> string list" where
  "ex_order S = [tour_link, fest_link]"

definition concert_row :: "string \<Rightarrow> event_row" where
  "concert_row l =
     \<lparr>title = JStr ''Concert'', location = JStr ''Arena'', city = JStr [],
      start_date = ''2025-05-01'', start_time = ''19:00'', event_link = l,
      ticket_link = JStr ''https://www.bilietai.lt/buy/1'',
      scraped_at = ''2026-01-01T00:00:00Z''\<rparr>"

definition tour_row :: event_row where
  "tour_row =
     \<lparr>title = JStr ''Tour'', location = JStr [], city = JStr [],
      start_date = ''2025-06-01'', start_time = [], event_link = tour_link,
      ticket_link = JStr [], scraped_at = ''2026-01-01T00:00:00Z''\<rparr>"

definition fest_row :: event_row where
  "fest_row =
     \<lparr>title = JStr ''Fest'', location = JStr [], city = JStr [],
      start_date = ''2025-07-01'', start_time = [], event_link = fest_link,
      ticket_link = JStr [], scraped_at = ''2026-01-01T00:00:00Z''\<rparr>"

text \<open>The accumulators after the listing page.\<close>

definition listed :: crawl_state where
  "listed =
     \<lparr>rows = [concert_row concert_link],
      series_links = {fest_link, tour_link},
      series_fallback = [tour_link \<mapsto> tour_row, fest_link \<mapsto> fest_row],
      seen_event_pages = {fest_link, tour_link, concert_link},
      ticks = 3\<rparr>"

text \<open>A run over two listing pages that both show the concert.\<close>

definition concert_soup :: soup where
  "concert_soup = [(card_tag, Some (JDict timed_event))]"

definition repeat_render :: "string \<Rightarrow> soup option" where
  "repeat_render url =
     (if url = base_url 1 \<or> url = base_url 2 then Some concert_soup else None)"

definition concert_listed :: crawl_state where
  "concert_listed =
     init_state\<lparr>seen_event_pages := {concert_link}, ticks := Suc 0,
                 rows := [concert_row concert_link]\<rparr>"

text \<open>The accumulators after the tour has been expanded, and at the end of the run.\<close>

definition tour_done :: crawl_state where
  "tour_done = listed\<lparr>rows := rows listed @ [concert_row fest_link], ticks := 4\<rparr>"

definition run_done :: crawl_state where
  "run_done = tour_done\<lparr>rows := rows tour_done @ [fest_row]\<rparr>"

section \<open>Predicates used to state the properties of the crawl\<close>

text \<open>An object of a series page that passes the tests of the expansion loop: a venue
  name, a ticket URL, and a resolved link other than the series URL.\<close>

definition qualifies :: "(string \<Rightarrow> string) \<Rightarrow> string \<Rightarrow> block \<Rightarrow> bool" where
  "qualifies abs_url series_url blk =
     (has_field (dict_get_default (snd blk) ''location'' (JDict [])) ''name''
      \<and> has_field (dict_get_default (snd blk) ''offers'' (JDict [])) ''url''
      \<and> snd (find_container_and_event_link abs_url (fst blk)) \<noteq> []
      \<and> snd (find_container_and_event_link abs_url (fst blk)) \<noteq> series_url)"

text \<open>The record that the builder makes of a block at some reading of the clock.\<close>

definition built_from :: "(string \<Rightarrow> string) \<Rightarrow> (nat \<Rightarrow> string) \<Rightarrow> block \<Rightarrow> event_row \<Rightarrow> bool" where
  "built_from abs_url clock blk r =
     (\<exists>t. row_from_event abs_url (clock t) (snd blk)
             (fst (find_container_and_event_link abs_url (fst blk)))
             (snd (find_container_and_event_link abs_url (fst blk))) = Inr r)"

text \<open>What holds of the accumulators throughout the listing phase.\<close>

definition listing_inv :: "crawl_state \<Rightarrow> bool" where
  "listing_inv st =
     (series_links st \<subseteq> dom (series_fallback st)
      \<and> series_links st \<subseteq> seen_event_pages st
      \<and> event_link ` set (rows st) \<subseteq> seen_event_pages st
      \<and> event_link ` set (rows st) \<inter> series_links st = {}
      \<and> distinct (map event_link (rows st))
      \<and> [] \<notin> seen_event_pages st
      \<and> (\<forall>l r. series_fallback st l = Some r \<longrightarrow> event_link r = l))"

text \<open>The blocks that the listing phase meets, page after page.\<close>

definition listing_stream :: "(string \<Rightarrow> soup option) \<Rightarrow> nat list \<Rightarrow> block list" where
  "listing_stream render ns =
     concat (map (\<lambda>n. case render (base_url n) of None \<Rightarrow> [] | Some sp \<Rightarrow> iter_event_jsonld sp) ns)"

section \<open>Properties of the container and link resolver\<close>

lemma dict_fromkeys_set: "set (dict_fromkeys xs) = set xs"
  by (induction xs) auto

lemma dict_fromkeys_distinct: "distinct (dict_fromkeys xs)"
  by (induction xs) (auto simp: dict_fromkeys_set)

lemma set_map_filter_eq:
  "set (List.map_filter f xs) = {y. \<exists>x \<in> set xs. f x = Some y}"
  by (induction xs) (auto split: option.splits)

lemma uniq_links_set:
  "set (uniq_links abs_url nd) =
     {l. \<exists>h \<in> set (find_all_a_href nd). detail_link abs_url h = Some l}"
  by (auto simp: uniq_links_def links_under_def dict_fromkeys_set set_map_filter_eq)

lemma ascend_skip:
  "length (uniq_links abs_url p) \<noteq> 1 \<Longrightarrow>
   ascend abs_url (Suc n) (p # ps) = ascend abs_url n ps"
  by (cases "uniq_links abs_url p"; cases "tl (uniq_links abs_url p)") auto

lemma ascend_found:
  "k < n \<Longrightarrow> k < length ps \<Longrightarrow> uniq_links abs_url (ps ! k) = [l] \<Longrightarrow>
   (\<forall>j<k. length (uniq_links abs_url (ps ! j)) \<noteq> 1) \<Longrightarrow>
   ascend abs_url n ps = (Some (ps ! k), l)"
proof (induction k arbitrary: n ps)
  case 0
  then obtain n' p ps' where "n = Suc n'" "ps = p # ps'"
    by (cases n; cases ps) auto
  with 0 show ?case by simp
next
  case (Suc k)
  then obtain n' p ps' where eq: "n = Suc n'" "ps = p # ps'"
    by (cases n; cases ps) auto
  from Suc.prems(4) eq have skip: "length (uniq_links abs_url p) \<noteq> 1"
    by (metis nth_Cons_0 zero_less_Suc)
  have "\<forall>j<k. length (uniq_links abs_url (ps' ! j)) \<noteq> 1"
    using Suc.prems(4) eq by (metis Suc_less_eq nth_Cons_Suc)
  then have "ascend abs_url n' ps' = (Some (ps' ! k), l)"
    using Suc.IH [of n' ps'] Suc.prems eq by simp
  then show ?case
    using eq skip by (simp add: ascend_skip del: ascend.simps)
qed

lemma ascend_none:
  "(\<forall>k. k < n \<and> k < length ps \<longrightarrow> length (uniq_links abs_url (ps ! k)) \<noteq> 1) \<Longrightarrow>
   ascend abs_url n ps = (None, [])"
proof (induction n arbitrary: ps)
  case 0
  show ?case by simp
next
  case (Suc n)
  show ?case
  proof (cases ps)
    case Nil
    then show ?thesis by simp
  next
    case (Cons p ps')
    from Suc.prems Cons have skip: "length (uniq_links abs_url p) \<noteq> 1"
      by (metis length_Cons nth_Cons_0 zero_less_Suc)
    have "\<forall>k. k < n \<and> k < length ps' \<longrightarrow> length (uniq_links abs_url (ps' ! k)) \<noteq> 1"
      using Suc.prems Cons by (metis Suc_less_eq length_Cons nth_Cons_Suc)
    then have "ascend abs_url n ps' = (None, [])"
      by (rule Suc.IH)
    then show ?thesis
      using Cons skip by (simp add: ascend_skip del: ascend.simps)
  qed
qed

lemma ascend_no_container:
  "fst (ascend abs_url n ps) = None \<Longrightarrow> snd (ascend abs_url n ps) = []"
proof (induction abs_url n ps rule: ascend.induct)
  case (3 abs_url n p ps)
  then show ?case
    by (cases "uniq_links abs_url p"; cases "tl (uniq_links abs_url p)") auto
qed simp_all

text \<open>
  Claim C1. The resolver is a total function that returns one pair of an optional
  container and one link. When the nearest enclosing \<open>a\<close> element with an \<open>href\<close> has a
  detail-shaped \<open>href\<close>, the result is that element with its link. Otherwise the parents
  are visited in order, at most 10 of them; the first parent whose detail-shaped links,
  de-duplicated, are exactly one link is returned with that link, and when no parent
  within the bound is such the result is no container and the empty link. The
  de-duplicated links of a node are the detail-shaped links of the \<open>a\<close> elements beneath
  it, each once. No container never comes with a link.
\<close>

theorem find_container_and_event_link_resolves:
  "(\<forall>a l. find_parent_a tag = Some a \<and> detail_link abs_url (the (a_href a)) = Some l \<longrightarrow>
      find_container_and_event_link abs_url tag = (Some a, l))
   \<and> ((\<forall>a. find_parent_a tag = Some a \<longrightarrow> detail_link abs_url (the (a_href a)) = None) \<longrightarrow>
        (\<forall>k l. k < 10 \<and> k < length tag \<and> uniq_links abs_url (tag ! k) = [l]
                \<and> (\<forall>j<k. length (uniq_links abs_url (tag ! j)) \<noteq> 1) \<longrightarrow>
            find_container_and_event_link abs_url tag = (Some (tag ! k), l))
        \<and> ((\<forall>k. k < 10 \<and> k < length tag \<longrightarrow> length (uniq_links abs_url (tag ! k)) \<noteq> 1) \<longrightarrow>
            find_container_and_event_link abs_url tag = (None, [])))
   \<and> (\<forall>nd. distinct (uniq_links abs_url nd)
         \<and> set (uniq_links abs_url nd) =
             {l. \<exists>h \<in> set (find_all_a_href nd). detail_link abs_url h = Some l})
   \<and> (fst (find_container_and_event_link abs_url tag) = None \<longrightarrow>
        snd (find_container_and_event_link abs_url tag) = [])"
proof (intro conjI allI impI)
  fix a l
  assume "find_parent_a tag = Some a \<and> detail_link abs_url (the (a_href a)) = Some l"
  then show "find_container_and_event_link abs_url tag = (Some a, l)"
    by (simp add: find_container_and_event_link_def)
next
  fix k l
  assume none: "\<forall>a. find_parent_a tag = Some a \<longrightarrow> detail_link abs_url (the (a_href a)) = None"
    and k: "k < 10 \<and> k < length tag \<and> uniq_links abs_url (tag ! k) = [l]
                \<and> (\<forall>j<k. length (uniq_links abs_url (tag ! j)) \<noteq> 1)"
  from none have "find_container_and_event_link abs_url tag = ascend abs_url 10 tag"
    by (auto simp: find_container_and_event_link_def split: option.splits)
  with k show "find_container_and_event_link abs_url tag = (Some (tag ! k), l)"
    by (simp add: ascend_found)
next
  assume none: "\<forall>a. find_parent_a tag = Some a \<longrightarrow> detail_link abs_url (the (a_href a)) = None"
    and k: "\<forall>k. k < 10 \<and> k < length tag \<longrightarrow> length (uniq_links abs_url (tag ! k)) \<noteq> 1"
  from none have "find_container_and_event_link abs_url tag = ascend abs_url 10 tag"
    by (auto simp: find_container_and_event_link_def split: option.splits)
  with k show "find_container_and_event_link abs_url tag = (None, [])"
    by (simp add: ascend_none)
next
  fix nd
  show "distinct (uniq_links abs_url nd)"
    by (simp add: uniq_links_def dict_fromkeys_distinct)
  show "set (uniq_links abs_url nd) =
             {l. \<exists>h \<in> set (find_all_a_href nd). detail_link abs_url h = Some l}"
    by (rule uniq_links_set)
next
  assume "fst (find_container_and_event_link abs_url tag) = None"
  then show "snd (find_container_and_event_link abs_url tag) = []"
    by (auto simp: find_container_and_event_link_def ascend_no_container split: option.splits)
qed

lemma uniq_links_card:
  "uniq_links site card = [''https://www.bilietai.lt/eng/tickets/concert-123'']"
  by (simp add: card_def uniq_links_def links_under_def find_all_a_href_def detail_link_def
      startswith_def event_page_re_def event_page_prefixes_def match_here_def is_digit_def
      site_def)

lemma uniq_links_script_div: "uniq_links abs_url (Tag ''div'' None [Tag ''script'' None []]) = []"
  by (simp add: uniq_links_def links_under_def find_all_a_href_def)

theorem find_container_and_event_link_resolves_witness:
  "find_parent_a card_tag = None
   \<and> (1::nat) < 10 \<and> 1 < length card_tag
   \<and> uniq_links site (card_tag ! 0) = []
   \<and> uniq_links site (card_tag ! 1) = [''https://www.bilietai.lt/eng/tickets/concert-123'']
   \<and> find_container_and_event_link site card_tag
       = (Some (card_tag ! 1), ''https://www.bilietai.lt/eng/tickets/concert-123'')"
proof -
  have np: "find_parent_a card_tag = None"
    by (simp add: card_tag_def card_def)
  have k: "(1::nat) < 10 \<and> 1 < length card_tag
      \<and> uniq_links site (card_tag ! 0) = []
      \<and> uniq_links site (card_tag ! 1) = [''https://www.bilietai.lt/eng/tickets/concert-123'']"
    by (simp add: card_tag_def uniq_links_card uniq_links_script_div)
  have no_a: "\<forall>a. find_parent_a card_tag = Some a \<longrightarrow> detail_link site (the (a_href a)) = None"
    by (simp add: np)
  have "find_container_and_event_link site card_tag
       = (Some (card_tag ! 1), ''https://www.bilietai.lt/eng/tickets/concert-123'')"
    by (rule find_container_and_event_link_resolves [of card_tag site, THEN conjunct2,
          THEN conjunct1, THEN mp, OF no_a, THEN conjunct1, THEN spec, THEN spec, THEN mp])
       (insert k, simp)
  with np k show ?thesis by simp
qed

section \<open>Properties of the record builder\<close>






text \<open>
  Claim C9, at the inputs where the code departs from it. A payload whose \<open>startDate\<close>
  is a number, or a JSON object as a typed literal is, makes the builder raise: no record
  is produced. A payload with no field at all gives the record of empty strings.
\<close>

theorem row_from_event_raises:
  "row_from_event abs_url now
     [(''@type'', JStr ''Event''), (''name'', JStr ''X''), (''startDate'', JNum 20250501)]
     container link = Inl TypeError
   \<and> row_from_event abs_url now
     [(''@type'', JStr ''Event''), (''name'', JStr ''X''),
      (''startDate'', JDict [(''@value'', JStr ''2025-05-01T19:00'')])]
     container link = Inl AttributeError
   \<and> row_from_event abs_url now [] None link =
       Inr \<lparr>title = JStr [], location = JStr [], city = JStr [], start_date = [],
             start_time = [], event_link = link, ticket_link = JStr [], scraped_at = now\<rparr>"
  by (simp add: row_from_event_def dict_get_default_def dict_get_def nested_dict_def Let_def
      first_time_from_text_def startswith_def)

section \<open>The accumulators during the two phases\<close>

lemma row_from_event_link:
  "row_from_event abs_url now e container l = Inr r \<Longrightarrow> event_link r = l"
  by (auto simp: row_from_event_def Let_def split: sum.splits prod.splits)

lemma listing_block_skip:
  "snd (find_container_and_event_link abs_url tag) = []
   \<or> snd (find_container_and_event_link abs_url tag) \<in> seen_event_pages st \<Longrightarrow>
   listing_block abs_url clock st (tag, e) = Inr st"
  by (auto simp: listing_block_def split: prod.splits)

lemma listing_block_route:
  "find_container_and_event_link abs_url tag = (container, l) \<Longrightarrow> l \<noteq> [] \<Longrightarrow>
   l \<notin> seen_event_pages st \<Longrightarrow>
   row_from_event abs_url (clock (ticks st)) e container l = Inr r \<Longrightarrow>
   listing_block abs_url clock st (tag, e) =
     Inr (if is_series r container
          then st\<lparr>seen_event_pages := insert l (seen_event_pages st), ticks := Suc (ticks st),
                  series_links := insert l (series_links st),
                  series_fallback := (series_fallback st)(l \<mapsto> r)\<rparr>
          else st\<lparr>seen_event_pages := insert l (seen_event_pages st), ticks := Suc (ticks st),
                  rows := rows st @ [r]\<rparr>)"
  by (simp add: listing_block_def Let_def)

lemma listing_block_cases:
  assumes "listing_block abs_url clock st blk = Inr st'"
  obtains (skip) "st' = st"
    "snd (find_container_and_event_link abs_url (fst blk)) = []
     \<or> snd (find_container_and_event_link abs_url (fst blk)) \<in> seen_event_pages st"
  | (series) container l r where
      "find_container_and_event_link abs_url (fst blk) = (container, l)" "l \<noteq> []"
      "l \<notin> seen_event_pages st"
      "row_from_event abs_url (clock (ticks st)) (snd blk) container l = Inr r"
      "is_series r container"
      "st' = st\<lparr>seen_event_pages := insert l (seen_event_pages st), ticks := Suc (ticks st),
                  series_links := insert l (series_links st),
                  series_fallback := (series_fallback st)(l \<mapsto> r)\<rparr>"
  | (direct) container l r where
      "find_container_and_event_link abs_url (fst blk) = (container, l)" "l \<noteq> []"
      "l \<notin> seen_event_pages st"
      "row_from_event abs_url (clock (ticks st)) (snd blk) container l = Inr r"
      "\<not> is_series r container"
      "st' = st\<lparr>seen_event_pages := insert l (seen_event_pages st), ticks := Suc (ticks st),
                  rows := rows st @ [r]\<rparr>"
proof -
  obtain tag e where blk: "blk = (tag, e)" by (cases blk)
  obtain container l where f: "find_container_and_event_link abs_url tag = (container, l)"
    by (cases "find_container_and_event_link abs_url tag")
  show ?thesis
  proof (cases "l = [] \<or> l \<in> seen_event_pages st")
    case True
    with assms blk f have "st' = st" by (simp add: listing_block_def)
    with True blk f skip show ?thesis by simp
  next
    case False
    with assms blk f obtain r where
      r: "row_from_event abs_url (clock (ticks st)) e container l = Inr r"
      by (auto simp: listing_block_def split: sum.splits)
    from listing_block_route [where clock = clock and e = e, OF f _ _ r] False assms blk
    have st': "st' = (if is_series r container
          then st\<lparr>seen_event_pages := insert l (seen_event_pages st), ticks := Suc (ticks st),
                  series_links := insert l (series_links st),
                  series_fallback := (series_fallback st)(l \<mapsto> r)\<rparr>
          else st\<lparr>seen_event_pages := insert l (seen_event_pages st), ticks := Suc (ticks st),
                  rows := rows st @ [r]\<rparr>)"
      by simp
    show ?thesis
    proof (cases "is_series r container")
      case True
      with st' False blk f r series show ?thesis by simp
    next
      case no: False
      with st' False blk f r direct show ?thesis by simp
    qed
  qed
qed

lemma listing_inv_init: "listing_inv init_state"
  by (simp add: listing_inv_def init_state_def)

lemma listing_block_inv:
  assumes "listing_inv st" "listing_block abs_url clock st blk = Inr st'"
  shows "listing_inv st'"
  using assms(2)
proof (cases rule: listing_block_cases)
  case skip
  with assms(1) show ?thesis by simp
next
  case (series container l r)
  from series(4) have "event_link r = l" by (rule row_from_event_link)
  with assms(1) series(2,3,6) show ?thesis
    by (auto simp: listing_inv_def)
next
  case (direct container l r)
  from direct(4) have "event_link r = l" by (rule row_from_event_link)
  with assms(1) direct(2,3,6) show ?thesis
    by (auto simp: listing_inv_def)
qed

lemma listing_block_seen_mono:
  assumes "listing_block abs_url clock st blk = Inr st'"
  shows "seen_event_pages st \<subseteq> seen_event_pages st'"
  using assms by (cases rule: listing_block_cases) auto

lemma listing_block_seen_link:
  assumes "listing_block abs_url clock st blk = Inr st'"
    and "snd (find_container_and_event_link abs_url (fst blk)) \<noteq> []"
  shows "snd (find_container_and_event_link abs_url (fst blk)) \<in> seen_event_pages st'"
  using assms by (cases rule: listing_block_cases) auto

lemma listing_blocks_inv:
  "listing_inv st \<Longrightarrow> listing_blocks abs_url clock st bs = Inr st' \<Longrightarrow> listing_inv st'"
  by (induction bs arbitrary: st) (auto split: sum.splits dest: listing_block_inv)

lemma listing_blocks_seen_mono:
  "listing_blocks abs_url clock st bs = Inr st' \<Longrightarrow> seen_event_pages st \<subseteq> seen_event_pages st'"
  by (induction bs arbitrary: st) (auto split: sum.splits dest: listing_block_seen_mono)

lemma listing_blocks_append:
  "listing_blocks abs_url clock st (xs @ ys) =
     (case listing_blocks abs_url clock st xs of
        Inl err \<Rightarrow> Inl err
      | Inr st' \<Rightarrow> listing_blocks abs_url clock st' ys)"
  by (induction xs arbitrary: st) (auto split: sum.splits)

lemma listing_pages_stream:
  "listing_pages abs_url clock render st ns =
     listing_blocks abs_url clock st (listing_stream render ns)"
  by (induction ns arbitrary: st)
     (auto simp: listing_stream_def listing_blocks_append split: option.splits sum.splits)

lemma listing_pages_inv:
  "listing_inv st \<Longrightarrow> listing_pages abs_url clock render st ns = Inr st' \<Longrightarrow> listing_inv st'"
  by (simp add: listing_pages_stream listing_blocks_inv)


lemma expand_block_skip:
  "\<not> qualifies abs_url u blk \<Longrightarrow> expand_block abs_url clock u acc blk = Inr acc"
  by (auto simp: expand_block_def qualifies_def split: prod.splits)

lemma expand_block_build:
  "qualifies abs_url u blk \<Longrightarrow>
   expand_block abs_url clock u (st, found) blk =
     (case row_from_event abs_url (clock (ticks st)) (snd blk)
             (fst (find_container_and_event_link abs_url (fst blk)))
             (snd (find_container_and_event_link abs_url (fst blk))) of
        Inl err \<Rightarrow> Inl err
      | Inr r \<Rightarrow> Inr (st\<lparr>rows := rows st @ [r], ticks := Suc (ticks st)\<rparr>, True))"
  by (auto simp: expand_block_def qualifies_def split: prod.splits sum.splits)

lemma expand_blocks_rows:
  "expand_blocks abs_url clock u (st, found) bs = Inr (st', found') \<Longrightarrow>
   \<exists>new. rows st' = rows st @ new
     \<and> list_all2 (\<lambda>blk r. built_from abs_url clock blk r) (filter (qualifies abs_url u) bs) new
     \<and> found' = (found \<or> filter (qualifies abs_url u) bs \<noteq> [])
     \<and> series_links st' = series_links st
     \<and> series_fallback st' = series_fallback st
     \<and> seen_event_pages st' = seen_event_pages st"
proof (induction bs arbitrary: st found)
  case Nil
  then show ?case by simp
next
  case (Cons blk bs)
  show ?case
  proof (cases "qualifies abs_url u blk")
    case False
    with Cons.prems have "expand_blocks abs_url clock u (st, found) bs = Inr (st', found')"
      by (simp add: expand_block_skip)
    from Cons.IH [OF this] False show ?thesis by simp
  next
    case True
    with Cons.prems obtain r where
      r: "row_from_event abs_url (clock (ticks st)) (snd blk)
             (fst (find_container_and_event_link abs_url (fst blk)))
             (snd (find_container_and_event_link abs_url (fst blk))) = Inr r"
      and rest: "expand_blocks abs_url clock u
             (st\<lparr>rows := rows st @ [r], ticks := Suc (ticks st)\<rparr>, True) bs = Inr (st', found')"
      by (auto simp: expand_block_build split: sum.splits)
    from r have b: "built_from abs_url clock blk r"
      unfolding built_from_def by blast
    from Cons.IH [OF rest] obtain new where
      new: "rows st' = (rows st @ [r]) @ new"
        "list_all2 (\<lambda>blk r. built_from abs_url clock blk r) (filter (qualifies abs_url u) bs) new"
        "found' = True"
        "series_links st' = series_links st"
        "series_fallback st' = series_fallback st"
        "seen_event_pages st' = seen_event_pages st"
      by auto
    have "rows st' = rows st @ (r # new)" using new(1) by simp
    moreover have "list_all2 (\<lambda>blk r. built_from abs_url clock blk r)
        (filter (qualifies abs_url u) (blk # bs)) (r # new)"
      using True b new(2) by simp
    ultimately show ?thesis
      using True new(3-6) by (intro exI [of _ "r # new"]) simp
  qed
qed

lemma built_from_link:
  "built_from abs_url clock blk r \<Longrightarrow>
   event_link r = snd (find_container_and_event_link abs_url (fst blk))"
  unfolding built_from_def by (auto dest: row_from_event_link)

lemma emit_fallback_fields:
  "series_links (emit_fallback st u) = series_links st
   \<and> series_fallback (emit_fallback st u) = series_fallback st
   \<and> seen_event_pages (emit_fallback st u) = seen_event_pages st"
  by (simp add: emit_fallback_def split: option.splits)

lemma emit_fallback_Some:
  "series_fallback st u = Some r \<Longrightarrow> emit_fallback st u = st\<lparr>rows := rows st @ [r]\<rparr>"
  by (simp add: emit_fallback_def)

lemma expand_series_fields:
  assumes "expand_series abs_url clock render st u = Inr st'"
  shows "series_links st' = series_links st \<and> series_fallback st' = series_fallback st
         \<and> seen_event_pages st' = seen_event_pages st"
proof (cases "render u")
  case None
  with assms show ?thesis by (auto simp: expand_series_def emit_fallback_fields)
next
  case (Some sp)
  with assms obtain st1 found where
    e: "expand_blocks abs_url clock u (st, False) (iter_event_jsonld sp) = Inr (st1, found)"
    and st': "st' = (if \<not> found then emit_fallback st1 u else st1)"
    by (auto simp: expand_series_def split: sum.splits if_splits)
  from expand_blocks_rows [OF e] st' show ?thesis
    by (auto simp: emit_fallback_fields)
qed

lemma series_phase_fields:
  "series_phase abs_url clock render st us = Inr st' \<Longrightarrow>
   series_links st' = series_links st \<and> series_fallback st' = series_fallback st
   \<and> seen_event_pages st' = seen_event_pages st"
proof (induction us arbitrary: st)
  case Nil
  then show ?case by simp
next
  case (Cons u us)
  then obtain st1 where s1: "expand_series abs_url clock render st u = Inr st1"
    and rest: "series_phase abs_url clock render st1 us = Inr st'"
    by (auto split: sum.splits)
  from expand_series_fields [OF s1] Cons.IH [OF rest] show ?case by simp
qed

section \<open>The example run, evaluated\<close>

lemmas url_shape_defs = uniq_links_def links_under_def find_all_a_href_def detail_link_def
  startswith_def event_page_re_def event_page_prefixes_def match_here_def is_digit_def site_def

lemma resolve_concert: "find_container_and_event_link site card_tag = (Some card, concert_link)"
proof -
  have "uniq_links site card = [concert_link]"
    by (simp add: card_def url_shape_defs concert_link_def)
  then show ?thesis
    by (simp add: find_container_and_event_link_def card_tag_def uniq_links_script_div
        eval_nat_numeral) (simp add: card_def)
qed

lemma resolve_tour: "find_container_and_event_link site tour_tag = (Some tour_card, tour_link)"
proof -
  have "uniq_links site tour_card = [tour_link]"
    by (simp add: tour_card_def url_shape_defs tour_link_def)
  then show ?thesis
    by (simp add: find_container_and_event_link_def tour_tag_def uniq_links_script_div
        eval_nat_numeral) (simp add: tour_card_def)
qed

lemma resolve_fest: "find_container_and_event_link site fest_tag = (Some fest_card, fest_link)"
proof -
  have "uniq_links site fest_card = [fest_link]"
    by (simp add: fest_card_def url_shape_defs fest_link_def)
  then show ?thesis
    by (simp add: find_container_and_event_link_def fest_tag_def uniq_links_script_div
        eval_nat_numeral) (simp add: fest_card_def)
qed

lemma build_concert:
  "row_from_event site (ex_clock t) timed_event container l = Inr (concert_row l)"
  by (simp add: row_from_event_def timed_event_def dict_get_default_def dict_get_def
      nested_dict_def Let_def strip_def is_space_def startswith_def site_def ex_clock_def
      concert_row_def)

lemma build_tour:
  "row_from_event site (ex_clock t) tour_event (Some tour_card) tour_link = Inr tour_row"
  by (simp add: row_from_event_def tour_event_def dict_get_default_def dict_get_def
      nested_dict_def Let_def strip_def is_space_def startswith_def ex_clock_def tour_row_def
      get_text_stripped_def tour_card_def first_time_from_text_def time_here_def is_digit_def)

lemma build_fest:
  "row_from_event site (ex_clock t) fest_event (Some fest_card) fest_link = Inr fest_row"
  by (simp add: row_from_event_def fest_event_def dict_get_default_def dict_get_def
      nested_dict_def Let_def strip_def is_space_def startswith_def ex_clock_def fest_row_def
      get_text_stripped_def fest_card_def first_time_from_text_def time_here_def is_digit_def)

lemma links_differ:
  "concert_link \<noteq> tour_link" "concert_link \<noteq> fest_link" "tour_link \<noteq> fest_link"
  "concert_link \<noteq> []" "tour_link \<noteq> []" "fest_link \<noteq> []"
  by (simp_all add: concert_link_def tour_link_def fest_link_def)

lemma concert_direct: "\<not> is_series (concert_row l) (Some card)"
  by (simp add: is_series_def concert_row_def raw_text_def get_text_def card_def startswith_def)

lemma tour_series: "is_series tour_row c" "is_series fest_row c"
  by (simp_all add: is_series_def tour_row_def fest_row_def)

lemma listing_soup_blocks:
  "iter_event_jsonld listing_soup =
     [(card_tag, timed_event), (tour_tag, tour_event), (fest_tag, fest_event)]"
  by (simp add: iter_event_jsonld_def listing_soup_def event_objs_def dict_get_def
      timed_event_def tour_event_def fest_event_def)

lemma tour_soup_blocks: "iter_event_jsonld tour_soup = [(fest_tag, timed_event)]"
  by (simp add: iter_event_jsonld_def tour_soup_def event_objs_def dict_get_def timed_event_def)


lemma listed_run: "listing_pages site ex_clock ex_render init_state [1] = Inr listed"
proof -
  have r: "ex_render (base_url 1) = Some listing_soup"
    by (simp add: ex_render_def)
  have b1: "listing_block site ex_clock init_state (card_tag, timed_event) =
      Inr (init_state\<lparr>seen_event_pages := {concert_link}, ticks := Suc 0,
                       rows := [concert_row concert_link]\<rparr>)"
    by (simp add: listing_block_def resolve_concert build_concert concert_direct links_differ
        init_state_def)
  have b2: "listing_block site ex_clock
        (init_state\<lparr>seen_event_pages := {concert_link}, ticks := Suc 0,
                     rows := [concert_row concert_link]\<rparr>) (tour_tag, tour_event) =
      Inr (init_state\<lparr>seen_event_pages := {tour_link, concert_link}, ticks := Suc (Suc 0),
                       rows := [concert_row concert_link], series_links := {tour_link},
                       series_fallback := [tour_link \<mapsto> tour_row]\<rparr>)"
    using links_differ
    by (simp add: listing_block_def resolve_tour build_tour tour_series init_state_def)
  have b3: "listing_block site ex_clock
        (init_state\<lparr>seen_event_pages := {tour_link, concert_link}, ticks := Suc (Suc 0),
                       rows := [concert_row concert_link], series_links := {tour_link},
                       series_fallback := [tour_link \<mapsto> tour_row]\<rparr>) (fest_tag, fest_event) =
      Inr listed"
    using links_differ
    by (simp add: listing_block_def resolve_fest build_fest tour_series init_state_def
        listed_def)
  show ?thesis
    using r by (simp add: listing_soup_blocks b1 b2 b3)
qed

lemma tour_expansion:
  "expand_series site ex_clock ex_render listed tour_link =
     Inr (listed\<lparr>rows := rows listed @ [concert_row fest_link], ticks := 4\<rparr>)"
proof -
  have r: "ex_render tour_link = Some tour_soup"
    by (simp add: ex_render_def tour_link_def base_url_def)
  have q: "has_field (dict_get_default timed_event ''location'' (JDict [])) ''name''
      \<and> has_field (dict_get_default timed_event ''offers'' (JDict [])) ''url''"
    by (simp add: has_field_def dict_get_default_def dict_get_def timed_event_def)
  have "expand_block site ex_clock tour_link (listed, False) (fest_tag, timed_event) =
      Inr (listed\<lparr>rows := rows listed @ [concert_row fest_link], ticks := 4\<rparr>, True)"
    using links_differ
    by (simp add: expand_block_def q resolve_fest build_concert listed_def)
  then show ?thesis
    by (simp add: expand_series_def r tour_soup_blocks)
qed

lemma fest_failure: "ex_render fest_link = None"
  by (simp add: ex_render_def fest_link_def tour_link_def base_url_def)

section \<open>The listing phase\<close>

text \<open>
  Claim C3. A block whose link is resolved and not yet seen, and whose record is built,
  is classified by the test: the venue name of the record is false, or the raw text of the
  container holds the phrase \<open>Different venues\<close>. A record so classified has its link
  added to the series links and is stored as the fallback of that link, and the output is
  left as it was; any other record is appended to the output, and the series links and
  fallbacks are left as they were. The venue name of the record is \<open>location.name\<close> of
  the payload, so a payload with an empty or missing \<open>location.name\<close> is routed to the
  series links.
\<close>

theorem listing_block_classifies:
  assumes "find_container_and_event_link abs_url tag = (container, l)"
    and "l \<noteq> []" and "l \<notin> seen_event_pages st"
    and "row_from_event abs_url (clock (ticks st)) e container l = Inr r"
  shows "is_series r container =
           (\<not> truthy (location r) \<or> str_contains ''Different venues'' (raw_text container))
    \<and> location r = dict_get_default (nested_dict e ''location'') ''name'' (JStr [])
    \<and> listing_block abs_url clock st (tag, e) =
        Inr (if \<not> truthy (location r) \<or> str_contains ''Different venues'' (raw_text container)
             then st\<lparr>seen_event_pages := insert l (seen_event_pages st), ticks := Suc (ticks st),
                     series_links := insert l (series_links st),
                     series_fallback := (series_fallback st)(l \<mapsto> r)\<rparr>
             else st\<lparr>seen_event_pages := insert l (seen_event_pages st), ticks := Suc (ticks st),
                     rows := rows st @ [r]\<rparr>)
    \<and> (\<not> truthy (dict_get_default (nested_dict e ''location'') ''name'' (JStr [])) \<longrightarrow>
         listing_block abs_url clock st (tag, e) =
           Inr (st\<lparr>seen_event_pages := insert l (seen_event_pages st), ticks := Suc (ticks st),
                    series_links := insert l (series_links st),
                    series_fallback := (series_fallback st)(l \<mapsto> r)\<rparr>))"
proof -
  have loc: "location r = dict_get_default (nested_dict e ''location'') ''name'' (JStr [])"
    using assms(4) by (auto simp: row_from_event_def Let_def split: sum.splits prod.splits)
  have cls: "is_series r container =
           (\<not> truthy (location r) \<or> str_contains ''Different venues'' (raw_text container))"
    by (simp add: is_series_def)
  note route = listing_block_route [where clock = clock and e = e, OF assms]
  from loc cls route show ?thesis by simp
qed

theorem listing_block_classifies_witness:
  "find_container_and_event_link site tour_tag = (Some tour_card, tour_link)
   \<and> tour_link \<noteq> [] \<and> tour_link \<notin> seen_event_pages init_state
   \<and> row_from_event site (ex_clock (ticks init_state)) tour_event (Some tour_card) tour_link
       = Inr tour_row
   \<and> \<not> truthy (dict_get_default (nested_dict tour_event ''location'') ''name'' (JStr []))
   \<and> listing_block site ex_clock init_state (tour_tag, tour_event) =
       Inr (init_state\<lparr>seen_event_pages := insert tour_link (seen_event_pages init_state),
              ticks := Suc (ticks init_state),
              series_links := insert tour_link (series_links init_state),
              series_fallback := (series_fallback init_state)(tour_link \<mapsto> tour_row)\<rparr>)"
proof -
  have h2: "tour_link \<noteq> []" by (rule links_differ)
  have h3: "tour_link \<notin> seen_event_pages init_state" by (simp add: init_state_def)
  have h5: "\<not> truthy (dict_get_default (nested_dict tour_event ''location'') ''name'' (JStr []))"
    by (simp add: nested_dict_def dict_get_def dict_get_default_def tour_event_def)
  note b = build_tour [of "ticks init_state"]
  note t = listing_block_classifies [where clock = ex_clock and e = tour_event,
      OF resolve_tour h2 h3 b,
      THEN conjunct2, THEN conjunct2, THEN conjunct2, THEN mp, OF h5]
  from resolve_tour h2 h3 b h5 t show ?thesis by simp
qed

text \<open>
  Claim C6. A block whose resolved link is already in the seen set leaves every
  accumulator as it was. The listing phase is the loop over the blocks of its pages, one
  page after the other; when two blocks of that sequence resolve to the same link, the
  accumulators after the second are those before it, so only the first is routed.
\<close>

theorem seen_link_discarded:
  "(snd (find_container_and_event_link abs_url tag) \<in> seen_event_pages st \<longrightarrow>
      listing_block abs_url clock st (tag, e) = Inr st)
   \<and> (listing_stream render ns = pre @ [(tag1, e1)] @ mid @ [(tag2, e2)] @ post
       \<and> snd (find_container_and_event_link abs_url tag1) = l
       \<and> snd (find_container_and_event_link abs_url tag2) = l
       \<and> listing_blocks abs_url clock st0 (pre @ [(tag1, e1)] @ mid) = Inr st2 \<longrightarrow>
         listing_block abs_url clock st2 (tag2, e2) = Inr st2
         \<and> listing_pages abs_url clock render st0 ns = listing_blocks abs_url clock st2 post)"
proof (intro conjI impI)
  assume "snd (find_container_and_event_link abs_url tag) \<in> seen_event_pages st"
  then show "listing_block abs_url clock st (tag, e) = Inr st"
    by (simp add: listing_block_skip)
next
  assume a: "listing_stream render ns = pre @ [(tag1, e1)] @ mid @ [(tag2, e2)] @ post
       \<and> snd (find_container_and_event_link abs_url tag1) = l
       \<and> snd (find_container_and_event_link abs_url tag2) = l
       \<and> listing_blocks abs_url clock st0 (pre @ [(tag1, e1)] @ mid) = Inr st2"
  then obtain sta stb where
    pre: "listing_blocks abs_url clock st0 pre = Inr sta"
    and one: "listing_block abs_url clock sta (tag1, e1) = Inr stb"
    and mid: "listing_blocks abs_url clock stb mid = Inr st2"
    by (auto simp: listing_blocks_append split: sum.splits)
  have skip: "listing_block abs_url clock st2 (tag2, e2) = Inr st2"
  proof (cases "l = []")
    case True
    with a show ?thesis by (simp add: listing_block_skip)
  next
    case False
    with a listing_block_seen_link [OF one] have "l \<in> seen_event_pages stb" by simp
    with listing_blocks_seen_mono [OF mid] have "l \<in> seen_event_pages st2" by blast
    with a show ?thesis by (simp add: listing_block_skip)
  qed
  show "listing_block abs_url clock st2 (tag2, e2) = Inr st2"
    by (rule skip)
  have "listing_pages abs_url clock render st0 ns =
      listing_blocks abs_url clock st0 ((pre @ [(tag1, e1)] @ mid) @ [(tag2, e2)] @ post)"
    using a by (simp add: listing_pages_stream)
  also have "\<dots> = listing_blocks abs_url clock st2 ([(tag2, e2)] @ post)"
    using a by (simp only: listing_blocks_append sum.case)
  also have "\<dots> = listing_blocks abs_url clock st2 post"
    using skip by simp
  finally show "listing_pages abs_url clock render st0 ns = listing_blocks abs_url clock st2 post" .
qed

lemma concert_soup_blocks: "iter_event_jsonld concert_soup = [(card_tag, timed_event)]"
  by (simp add: iter_event_jsonld_def concert_soup_def event_objs_def dict_get_def
      timed_event_def)

lemma concert_block:
  "listing_block site ex_clock init_state (card_tag, timed_event) = Inr concert_listed"
  by (simp add: listing_block_def resolve_concert build_concert concert_direct links_differ
      init_state_def concert_listed_def)

lemma repeat_stream:
  "listing_stream repeat_render [1, 2] = [(card_tag, timed_event), (card_tag, timed_event)]"
  by (simp add: listing_stream_def repeat_render_def concert_soup_blocks)

theorem seen_link_discarded_witness:
  "listing_stream repeat_render [1, 2] =
      [] @ [(card_tag, timed_event)] @ [] @ [(card_tag, timed_event)] @ []
   \<and> snd (find_container_and_event_link site card_tag) = concert_link
   \<and> snd (find_container_and_event_link site card_tag) \<in> seen_event_pages concert_listed
   \<and> listing_blocks site ex_clock init_state ([] @ [(card_tag, timed_event)] @ []) =
       Inr concert_listed
   \<and> listing_block site ex_clock concert_listed (card_tag, timed_event) = Inr concert_listed
   \<and> listing_pages site ex_clock repeat_render init_state [1, 2] =
       listing_blocks site ex_clock concert_listed []"
proof -
  have s: "listing_stream repeat_render [1, 2] =
      [] @ [(card_tag, timed_event)] @ [] @ [(card_tag, timed_event)] @ []"
    by (simp only: repeat_stream append_Nil append_Cons)
  have l: "snd (find_container_and_event_link site card_tag) = concert_link"
    by (simp add: resolve_concert)
  have m: "snd (find_container_and_event_link site card_tag) \<in> seen_event_pages concert_listed"
    by (simp add: resolve_concert concert_listed_def)
  have b: "listing_blocks site ex_clock init_state ([] @ [(card_tag, timed_event)] @ []) =
       Inr concert_listed"
    by (simp add: concert_block)
  note t1 = seen_link_discarded [where abs_url = site and tag = card_tag and st = concert_listed
      and clock = ex_clock and e = timed_event, THEN conjunct1, THEN mp, OF m]
  have h: "listing_stream repeat_render [1, 2] =
        [] @ [(card_tag, timed_event)] @ [] @ [(card_tag, timed_event)] @ []
       \<and> snd (find_container_and_event_link site card_tag) = concert_link
       \<and> snd (find_container_and_event_link site card_tag) = concert_link
       \<and> listing_blocks site ex_clock init_state ([] @ [(card_tag, timed_event)] @ []) =
           Inr concert_listed"
    using s l b by simp
  note t2 = seen_link_discarded [where abs_url = site and clock = ex_clock
      and render = repeat_render and ns = "[1, 2]" and pre = "[]" and mid = "[]" and post = "[]"
      and ?tag1.0 = card_tag and ?tag2.0 = card_tag and ?e1.0 = timed_event
      and ?e2.0 = timed_event and l = concert_link and ?st0.0 = init_state
      and ?st2.0 = concert_listed, THEN conjunct2, THEN mp, OF h]
  from s l m b t1 t2 show ?thesis by simp
qed

section \<open>The series phase\<close>

text \<open>
  Claim C10. After the listing phase, begun with empty accumulators, every series link
  has a fallback record. The series phase changes neither the series links nor the
  fallbacks, so at any point of it, after any number of series links, a series link
  \<open>u\<close> has a fallback record: the fallback branch appends that one record, after a failed
  rendering as after a page on which nothing qualified. The record carries the link \<open>u\<close>.
\<close>

theorem series_links_have_fallback:
  assumes "listing_pages abs_url clock render init_state ns = Inr st"
    and "series_phase abs_url clock render st us = Inr st'"
    and "u \<in> series_links st'"
  shows "series_links st \<subseteq> dom (series_fallback st)
    \<and> series_links st' = series_links st
    \<and> series_fallback st' = series_fallback st
    \<and> (\<exists>r. series_fallback st' u = Some r \<and> event_link r = u
          \<and> emit_fallback st' u = st'\<lparr>rows := rows st' @ [r]\<rparr>
          \<and> (\<forall>bs st1 found.
                expand_blocks abs_url clock u (st', False) bs = Inr (st1, found) \<longrightarrow>
                emit_fallback st1 u = st1\<lparr>rows := rows st1 @ [r]\<rparr>))"
proof -
  from listing_pages_inv [OF listing_inv_init assms(1)] have inv: "listing_inv st" .
  then have sub: "series_links st \<subseteq> dom (series_fallback st)"
    by (simp add: listing_inv_def)
  from series_phase_fields [OF assms(2)]
  have same: "series_links st' = series_links st" "series_fallback st' = series_fallback st"
    by simp_all
  from assms(3) same sub obtain r where r: "series_fallback st' u = Some r"
    by auto
  with inv same have link: "event_link r = u"
    by (simp add: listing_inv_def)
  have later: "emit_fallback st1 u = st1\<lparr>rows := rows st1 @ [r]\<rparr>"
    if "expand_blocks abs_url clock u (st', False) bs = Inr (st1, found)" for bs st1 found
    using expand_blocks_rows [OF that] r by (auto simp: emit_fallback_Some)
  from sub same r link later show ?thesis
    by (auto simp: emit_fallback_Some)
qed

text \<open>
  Claim C4. In a run whose listing phase is over, at any point of the series phase, a
  series link whose page does not render makes the loop append exactly one record, the
  fallback record stored for that link, and go on with the next series link.
\<close>

theorem render_failure_emits_fallback:
  assumes "listing_pages abs_url clock render init_state ns = Inr st"
    and "series_phase abs_url clock render st us = Inr st1"
    and "u \<in> series_links st"
    and "render u = None"
  shows "\<exists>r. series_fallback st u = Some r \<and> event_link r = u
    \<and> expand_series abs_url clock render st1 u = Inr (st1\<lparr>rows := rows st1 @ [r]\<rparr>)
    \<and> series_phase abs_url clock render st1 (u # rest) =
        series_phase abs_url clock render (st1\<lparr>rows := rows st1 @ [r]\<rparr>) rest"
proof -
  from listing_pages_inv [OF listing_inv_init assms(1)] have inv: "listing_inv st" .
  with assms(3) obtain r where r: "series_fallback st u = Some r"
    by (auto simp: listing_inv_def)
  with inv have link: "event_link r = u"
    by (simp add: listing_inv_def)
  from series_phase_fields [OF assms(2)] r have "series_fallback st1 u = Some r"
    by simp
  with assms(4) have step:
    "expand_series abs_url clock render st1 u = Inr (st1\<lparr>rows := rows st1 @ [r]\<rparr>)"
    by (simp add: expand_series_def emit_fallback_Some)
  then have "series_phase abs_url clock render st1 (u # rest) =
        series_phase abs_url clock render (st1\<lparr>rows := rows st1 @ [r]\<rparr>) rest"
    by simp
  with r link step show ?thesis by blast
qed

lemma tour_phase: "series_phase site ex_clock ex_render listed [tour_link] = Inr tour_done"
  by (simp add: tour_expansion tour_done_def)

lemma fest_pending: "fest_link \<in> series_links listed" "tour_link \<in> series_links listed"
  by (simp_all add: listed_def)

theorem series_links_have_fallback_witness:
  "listing_pages site ex_clock ex_render init_state [1] = Inr listed
   \<and> series_phase site ex_clock ex_render listed [tour_link] = Inr tour_done
   \<and> fest_link \<in> series_links tour_done
   \<and> series_links listed \<subseteq> dom (series_fallback listed)
   \<and> (\<exists>r. series_fallback tour_done fest_link = Some r \<and> event_link r = fest_link
          \<and> emit_fallback tour_done fest_link = tour_done\<lparr>rows := rows tour_done @ [r]\<rparr>)"
proof -
  have m: "fest_link \<in> series_links tour_done"
    by (simp add: tour_done_def fest_pending)
  from series_links_have_fallback [OF listed_run tour_phase m] listed_run tour_phase m
  show ?thesis by blast
qed

theorem render_failure_emits_fallback_witness:
  "listing_pages site ex_clock ex_render init_state [1] = Inr listed
   \<and> series_phase site ex_clock ex_render listed [tour_link] = Inr tour_done
   \<and> fest_link \<in> series_links listed
   \<and> ex_render fest_link = None
   \<and> (\<exists>r. series_fallback listed fest_link = Some r \<and> event_link r = fest_link
          \<and> expand_series site ex_clock ex_render tour_done fest_link =
              Inr (tour_done\<lparr>rows := rows tour_done @ [r]\<rparr>)
          \<and> series_phase site ex_clock ex_render tour_done [fest_link] =
              series_phase site ex_clock ex_render (tour_done\<lparr>rows := rows tour_done @ [r]\<rparr>) [])"
proof -
  note t = render_failure_emits_fallback
    [where rest = "[]", OF listed_run tour_phase fest_pending(1) fest_failure]
  from t listed_run tour_phase fest_pending(1) fest_failure show ?thesis by blast
qed

lemma list_all2_right:
  "list_all2 P xs ys \<Longrightarrow> y \<in> set ys \<Longrightarrow> \<exists>x \<in> set xs. P x y"
  by (induction rule: list_all2_induct) auto

text \<open>
  Claim C5. When the page of a series link renders, the records that the expansion
  appends are the records built from the objects that have a venue name and a ticket URL
  and whose resolved link is not empty and not the series link, one record for each, in
  the order of the page; none of them carries the series link. When no object is such,
  what is appended is the fallback record of the series link, once, if there is one.
\<close>

theorem expansion_keeps_qualifying:
  assumes "render u = Some sp"
    and "expand_series abs_url clock render st u = Inr st'"
  shows "\<exists>new. rows st' = rows st @ new
    \<and> (filter (qualifies abs_url u) (iter_event_jsonld sp) \<noteq> [] \<longrightarrow>
         list_all2 (built_from abs_url clock)
           (filter (qualifies abs_url u) (iter_event_jsonld sp)) new
         \<and> (\<forall>r \<in> set new. event_link r \<noteq> u))
    \<and> (filter (qualifies abs_url u) (iter_event_jsonld sp) = [] \<longrightarrow>
         new = (case series_fallback st u of None \<Rightarrow> [] | Some r \<Rightarrow> [r]))"
proof -
  let ?q = "filter (qualifies abs_url u) (iter_event_jsonld sp)"
  from assms obtain st1 found where
    e: "expand_blocks abs_url clock u (st, False) (iter_event_jsonld sp) = Inr (st1, found)"
    and st': "st' = (if \<not> found then emit_fallback st1 u else st1)"
    by (auto simp: expand_series_def split: sum.splits if_splits)
  from expand_blocks_rows [OF e] obtain new where
    new: "rows st1 = rows st @ new"
      "list_all2 (built_from abs_url clock) ?q new"
      "found = (?q \<noteq> [])"
      "series_fallback st1 = series_fallback st"
    by auto
  show ?thesis
  proof (cases "?q = []")
    case True
    with new have "new = []" "\<not> found" by simp_all
    with st' new(1,4) True show ?thesis
      by (auto simp: emit_fallback_def split: option.splits)
  next
    case False
    with new(3) st' have "st' = st1" by simp
    moreover have "event_link r \<noteq> u" if "r \<in> set new" for r
    proof -
      from list_all2_right [OF new(2) that] obtain blk where
        "blk \<in> set ?q" "built_from abs_url clock blk r" by blast
      then show ?thesis
        by (auto simp: qualifies_def dest: built_from_link)
    qed
    ultimately show ?thesis
      using new(1,2) False by auto
  qed
qed

lemma tour_qualifying:
  "filter (qualifies site tour_link) (iter_event_jsonld tour_soup) = [(fest_tag, timed_event)]"
  using links_differ
  by (simp add: tour_soup_blocks qualifies_def resolve_fest has_field_def dict_get_default_def
      dict_get_def timed_event_def)

lemma tour_render: "ex_render tour_link = Some tour_soup"
  by (simp add: ex_render_def tour_link_def base_url_def)

theorem expansion_keeps_qualifying_witness:
  "ex_render tour_link = Some tour_soup
   \<and> expand_series site ex_clock ex_render listed tour_link = Inr tour_done
   \<and> filter (qualifies site tour_link) (iter_event_jsonld tour_soup) = [(fest_tag, timed_event)]
   \<and> (\<exists>new. rows tour_done = rows listed @ new
         \<and> list_all2 (built_from site ex_clock) [(fest_tag, timed_event)] new
         \<and> (\<forall>r \<in> set new. event_link r \<noteq> tour_link))"
proof -
  have e: "expand_series site ex_clock ex_render listed tour_link = Inr tour_done"
    by (simp add: tour_expansion tour_done_def)
  from expansion_keeps_qualifying [OF tour_render e] tour_render e tour_qualifying
  show ?thesis by simp
qed

section \<open>Links of direct records and series links\<close>



lemma tour_blocks:
  "expand_blocks site ex_clock tour_link (listed, False) [(fest_tag, timed_event)] =
     Inr (tour_done, True)"
proof -
  have q: "has_field (dict_get_default timed_event ''location'' (JDict [])) ''name''
      \<and> has_field (dict_get_default timed_event ''offers'' (JDict [])) ''url''"
    by (simp add: has_field_def dict_get_default_def dict_get_def timed_event_def)
  show ?thesis
    using links_differ
    by (simp add: expand_block_def q resolve_fest build_concert tour_done_def listed_def)
qed





section \<open>The final table\<close>

lemma drop_dups_keys:
  "set (map dedup_key (drop_dups seen rs)) = set (map dedup_key rs) - set seen"
  by (induction rs arbitrary: seen) auto

lemma drop_dups_unseen: "x \<in> set (drop_dups seen rs) \<Longrightarrow> dedup_key x \<notin> set seen"
  using drop_dups_keys [of seen rs] by auto

lemma drop_dups_distinct: "distinct (map dedup_key (drop_dups seen rs))"
  by (induction rs arbitrary: seen) (auto dest: drop_dups_unseen)

lemma drop_dups_subseq: "subseq (drop_dups seen rs) rs"
  by (induction rs arbitrary: seen) auto

lemma drop_dups_first:
  "k \<notin> set seen \<Longrightarrow>
   find (\<lambda>x. dedup_key x = k) (drop_dups seen rs) = find (\<lambda>x. dedup_key x = k) rs"
  by (induction rs arbitrary: seen) auto

text \<open>
  Claim C2. The table that the run returns is the merged rows of both phases with the
  duplicates of the key (title, start date, start time, location) dropped: no two of its
  records have the same key, every key of the merged rows is kept, the records keep their
  order, and the record kept for a key is the first of the merged rows with that key.
\<close>

theorem final_table_keys_unique:
  assumes "scrape_bilietai_lt abs_url clock render set_order pages_to_check = Inr table"
  shows "\<exists>st. crawl abs_url clock render set_order pages_to_check = Inr st
    \<and> table = drop_duplicates (rows st)
    \<and> distinct (map dedup_key table)
    \<and> set (map dedup_key table) = set (map dedup_key (rows st))
    \<and> subseq table (rows st)
    \<and> (\<forall>r \<in> set (rows st).
          find (\<lambda>x. dedup_key x = dedup_key r) table =
          find (\<lambda>x. dedup_key x = dedup_key r) (rows st))"
proof -
  from assms obtain st where
    st: "crawl abs_url clock render set_order pages_to_check = Inr st"
    and table: "table = drop_duplicates (rows st)"
    by (auto simp: scrape_bilietai_lt_def split: sum.splits)
  have "distinct (map dedup_key table)"
    using table by (simp add: drop_duplicates_def drop_dups_distinct)
  moreover have "set (map dedup_key table) = set (map dedup_key (rows st))"
    using table drop_dups_keys [of "[]" "rows st"] by (simp add: drop_duplicates_def)
  moreover have "subseq table (rows st)"
    using table by (simp add: drop_duplicates_def drop_dups_subseq)
  moreover have "\<forall>r \<in> set (rows st).
          find (\<lambda>x. dedup_key x = dedup_key r) table =
          find (\<lambda>x. dedup_key x = dedup_key r) (rows st)"
    using table by (simp add: drop_duplicates_def drop_dups_first)
  ultimately show ?thesis using st table by blast
qed

lemma run_crawl: "crawl site ex_clock ex_render ex_order 1 = Inr run_done"
proof -
  have p: "map nat [1..1] = [1]"
    by (simp add: upto.simps)
  have f: "expand_series site ex_clock ex_render tour_done fest_link = Inr run_done"
    by (simp add: expand_series_def fest_failure emit_fallback_def tour_done_def listed_def
        run_done_def links_differ)
  have e: "expand_series site ex_clock ex_render listed tour_link = Inr tour_done"
    by (simp add: tour_expansion tour_done_def)
  have "crawl site ex_clock ex_render ex_order 1 =
      series_phase site ex_clock ex_render listed [tour_link, fest_link]"
    by (simp only: crawl_def p listed_run sum.case ex_order_def)
  also have "\<dots> = Inr run_done"
    by (simp add: e f)
  finally show ?thesis .
qed

lemma run_table:
  "drop_duplicates (rows run_done) = [concert_row concert_link, fest_row]"
  by (simp add: drop_duplicates_def run_done_def tour_done_def listed_def dedup_key_def
      concert_row_def fest_row_def)

theorem final_table_keys_unique_witness:
  "scrape_bilietai_lt site ex_clock ex_render ex_order 1 =
     Inr [concert_row concert_link, fest_row]
   \<and> crawl site ex_clock ex_render ex_order 1 = Inr run_done
   \<and> rows run_done = [concert_row concert_link, concert_row fest_link, fest_row]
   \<and> distinct (map dedup_key [concert_row concert_link, fest_row])
   \<and> find (\<lambda>x. dedup_key x = dedup_key (concert_row fest_link))
        [concert_row concert_link, fest_row] = Some (concert_row concert_link)"
proof -
  have s: "scrape_bilietai_lt site ex_clock ex_render ex_order 1 =
     Inr [concert_row concert_link, fest_row]"
    by (simp only: scrape_bilietai_lt_def run_crawl run_table sum.case)
  have r: "rows run_done = [concert_row concert_link, concert_row fest_link, fest_row]"
    by (simp add: run_done_def tour_done_def listed_def)
  from final_table_keys_unique [OF s] obtain st where
    st: "crawl site ex_clock ex_render ex_order 1 = Inr st"
    and d: "distinct (map dedup_key [concert_row concert_link, fest_row])"
    and f: "\<forall>r \<in> set (rows st).
          find (\<lambda>x. dedup_key x = dedup_key r) [concert_row concert_link, fest_row] =
          find (\<lambda>x. dedup_key x = dedup_key r) (rows st)"
    by blast
  from st run_crawl have "st = run_done" by (simp only: sum.inject)
  with f r have "find (\<lambda>x. dedup_key x = dedup_key (concert_row fest_link))
        [concert_row concert_link, fest_row] =
      find (\<lambda>x. dedup_key x = dedup_key (concert_row fest_link))
        [concert_row concert_link, concert_row fest_link, fest_row]"
    by simp
  also have "\<dots> = Some (concert_row concert_link)"
    by (simp add: dedup_key_def concert_row_def)
  finally have k: "find (\<lambda>x. dedup_key x = dedup_key (concert_row fest_link))
        [concert_row concert_link, fest_row] = Some (concert_row concert_link)" .
  from s run_crawl r d k show ?thesis by (intro conjI)
qed

end
